theory Spec2Isabelle
  imports Main
begin

section \<open>Text\<close>

text \<open>
  A Python \<open>str\<close> is a sequence of Unicode code points. The program's own literals are
  ASCII except for four Chinese messages, so text is a list of code points and an ASCII
  literal is written \<open>ascii ''...''\<close>.
\<close>

type_synonym pystr = "nat list"

definition ascii :: "string \<Rightarrow> pystr" where
  "ascii s = map of_char s"

text \<open>\<open>needle in hay\<close> on Python strings: \<open>needle\<close> occurs as a contiguous run.\<close>

fun starts_with :: "pystr \<Rightarrow> pystr \<Rightarrow> bool" where
  "starts_with [] s = True"
| "starts_with (p # ps) [] = False"
| "starts_with (p # ps) (c # cs) = (p = c \<and> starts_with ps cs)"

fun contains :: "pystr \<Rightarrow> pystr \<Rightarrow> bool" where
  "contains needle [] = (needle = [])"
| "contains needle (c # cs) = (starts_with needle (c # cs) \<or> contains needle cs)"

text \<open>\<open>sep.join(xs)\<close>.\<close>

fun join :: "pystr \<Rightarrow> pystr list \<Rightarrow> pystr" where
  "join sep [] = []"
| "join sep [x] = x"
| "join sep (x # y # ys) = x @ sep @ join sep (y # ys)"

text \<open>
  \<open>str.strip()\<close> removes leading and trailing white space, the code points for which
  \<open>str.isspace\<close> holds.
\<close>

definition py_isspace :: "nat \<Rightarrow> bool" where
  "py_isspace c =
     ((9 \<le> c \<and> c \<le> 13) \<or> (28 \<le> c \<and> c \<le> 32) \<or> c = 0x85 \<or> c = 0xA0 \<or> c = 0x1680
      \<or> (0x2000 \<le> c \<and> c \<le> 0x200A) \<or> c = 0x2028 \<or> c = 0x2029 \<or> c = 0x202F
      \<or> c = 0x205F \<or> c = 0x3000)"

definition strip :: "pystr \<Rightarrow> pystr" where
  "strip s = rev (dropWhile py_isspace (rev (dropWhile py_isspace s)))"

section \<open>Exceptions\<close>

text \<open>
  Both capabilities guard their body with \<open>except Exception as e\<close>. That clause catches
  the instances of class \<open>Exception\<close> and lets the other instances of
  \<open>BaseException\<close> (\<open>KeyboardInterrupt\<close>, \<open>SystemExit\<close>, \<open>GeneratorExit\<close>) pass.
  An exception is modelled by that distinction and by a text: \<open>str(e)\<close> for an
  instance of \<open>Exception\<close>, the only thing the handlers read, and a name for the others.
\<close>

datatype py_exc = Exception pystr | BaseException pystr

section \<open>The directive parser\<close>

text \<open>
  \<open>extract_action\<close> is \<open>re.findall(r"Action: ([a-z_]+): (.+)", text, re.IGNORECASE)\<close>
  followed by \<open>match[0]\<close>: the groups of the leftmost match.

  Under \<open>re.IGNORECASE\<close> on \<open>str\<close> patterns a pattern letter matches both of its ASCII
  cases, and \<open>i\<close>, \<open>s\<close> and \<open>k\<close> also match the non-ASCII letters that lower-case or
  case-fold to them (U+0130, U+0131, U+017F, U+212A).
\<close>

definition ignorecase_eq :: "nat \<Rightarrow> nat \<Rightarrow> bool" where
  "ignorecase_eq p c =
     (c = p
      \<or> (65 \<le> p \<and> p \<le> 90 \<and> c = p + 32)
      \<or> (97 \<le> p \<and> p \<le> 122 \<and> c + 32 = p)
      \<or> ((p = 105 \<or> p = 73) \<and> (c = 0x130 \<or> c = 0x131))
      \<or> ((p = 115 \<or> p = 83) \<and> c = 0x17F)
      \<or> ((p = 107 \<or> p = 75) \<and> c = 0x212A))"

text \<open>The class \<open>[a-z_]\<close> under \<open>re.IGNORECASE\<close>.\<close>

definition name_char :: "nat \<Rightarrow> bool" where
  "name_char c =
     (c = 95 \<or> (97 \<le> c \<and> c \<le> 122) \<or> (65 \<le> c \<and> c \<le> 90)
      \<or> c = 0x130 \<or> c = 0x131 \<or> c = 0x17F \<or> c = 0x212A)"

text \<open>The literal part of the pattern; the result is the text after it.\<close>

fun match_literal :: "pystr \<Rightarrow> pystr \<Rightarrow> pystr option" where
  "match_literal [] s = Some s"
| "match_literal (p # ps) [] = None"
| "match_literal (p # ps) (c # cs) =
     (if ignorecase_eq p c then match_literal ps cs else None)"

text \<open>
  A match that starts at the head of \<open>s\<close>. The greedy \<open>[a-z_]+\<close> takes the longest run
  of name characters; it must be non-empty and be followed by \<open>": "\<close>. No shorter run
  can succeed instead, since the character after a shorter run is a name character and
  not a colon. The greedy \<open>.+\<close> takes everything up to the next line feed, at least one
  character.
\<close>

definition match_here :: "pystr \<Rightarrow> (pystr \<times> pystr) option" where
  "match_here s =
     (case match_literal (ascii ''Action: '') s of
        None \<Rightarrow> None
      | Some r1 \<Rightarrow>
          (let name = takeWhile name_char r1; r2 = dropWhile name_char r1 in
           if name = [] then None
           else (case r2 of
                   c1 # c2 # r3 \<Rightarrow>
                     (if c1 = 58 \<and> c2 = 32 then
                        (let arg = takeWhile (\<lambda>c. c \<noteq> 10) r3 in
                         if arg = [] then None else Some (name, arg))
                      else None)
                 | _ \<Rightarrow> None)))"

text \<open>The scan: the leftmost start position that has a match wins.\<close>

fun extract_action :: "pystr \<Rightarrow> (pystr \<times> pystr) option" where
  "extract_action [] = None"
| "extract_action (c # cs) =
     (case match_here (c # cs) of
        Some m \<Rightarrow> Some m
      | None \<Rightarrow> extract_action cs)"

section \<open>Configuration\<close>

record Config =
  MAX_ITERATIONS :: int
  SEARCH_API :: pystr
  SEARCH_PARAMS :: "pystr \<rightharpoonup> pystr"

definition default_config :: Config where
  "default_config =
     \<lparr>MAX_ITERATIONS = 10,
      SEARCH_API = ascii ''https://cn.bing.com/search'',
      SEARCH_PARAMS =
        [ascii ''form'' \<mapsto> ascii ''QBRE'', ascii ''cc'' \<mapsto> ascii ''CN'',
         ascii ''rdr'' \<mapsto> ascii ''1'', ascii ''lq'' \<mapsto> ascii ''0'']\<rparr>"

section \<open>Capabilities\<close>

subsection \<open>Search\<close>

text \<open>
  The HTTP client and the HTML parser are libraries; \<open>BingSearch.__call__\<close> is modelled
  over what they give back. \<open>http_get\<close> is \<open>self.client.get(url, params=params)\<close>,
  \<open>raise_for_status\<close> is the response's method of that name, and \<open>select_results\<close> is
  the parse \<open>BeautifulSoup(response.text, 'html.parser')\<close> followed by
  \<open>soup.select('.b_algo')\<close>. Each of them returns or raises.

  A result block is read through \<open>item.select_one('h2')\<close> and
  \<open>item.select_one('.b_caption p')\<close>, each a tag or \<open>None\<close>; a tag is always truthy, and
  only its \<open>get_text()\<close> is used. A raise while a block is read counts as a raise of
  \<open>select_results\<close>: inside the \<open>try\<close> the place of a raise makes no difference.
\<close>

record response =
  status_code :: int
  body_text :: pystr

record item =
  h2_text :: "pystr option"
  caption_text :: "pystr option"

record backend =
  http_get :: "pystr \<Rightarrow> (pystr \<rightharpoonup> pystr) \<Rightarrow> py_exc + response"
  raise_for_status :: "response \<Rightarrow> py_exc + unit"
  select_results :: "pystr \<Rightarrow> py_exc + item list"

definition no_results :: pystr where
  "no_results = [0x672A, 0x627E, 0x5230, 0x76F8, 0x5173, 0x7ED3, 0x679C]"

definition search_failed :: pystr where
  "search_failed = [0x641C, 0x7D22, 0x5931, 0x8D25, 58, 32]"

definition format_result :: "pystr \<Rightarrow> pystr \<Rightarrow> pystr" where
  "format_result title desc = strip title @ ascii '': '' @ strip desc"

text \<open>
  The \<open>for item in soup.select('.b_algo')\<close> loop with its \<open>break\<close>; \<open>results\<close> is the
  list built so far.
\<close>

fun collect_results :: "item list \<Rightarrow> pystr list \<Rightarrow> pystr list" where
  "collect_results [] results = results"
| "collect_results (it # items) results =
     (let results' =
        (case (h2_text it, caption_text it) of
           (Some title, Some desc) \<Rightarrow> results @ [format_result title desc]
         | _ \<Rightarrow> results)
      in if length results' \<ge> 5 then results' else collect_results items results')"

text \<open>The body of the \<open>try\<close>.\<close>

definition search_body :: "Config \<Rightarrow> backend \<Rightarrow> pystr \<Rightarrow> py_exc + pystr" where
  "search_body config be query =
     (let params = (SEARCH_PARAMS config)(ascii ''q'' \<mapsto> query) in
      case http_get be (SEARCH_API config) params of
        Inl e \<Rightarrow> Inl e
      | Inr resp \<Rightarrow>
          (case raise_for_status be resp of
             Inl e \<Rightarrow> Inl e
           | Inr _ \<Rightarrow>
               (case select_results be (body_text resp) of
                  Inl e \<Rightarrow> Inl e
                | Inr items \<Rightarrow>
                    (let results = collect_results items [] in
                     Inr (if results \<noteq> [] then join [10] results else no_results)))))"

text \<open>\<open>BingSearch.__call__\<close>: the body under \<open>except Exception as e\<close>.\<close>

definition BingSearch :: "Config \<Rightarrow> backend \<Rightarrow> pystr \<Rightarrow> py_exc + pystr" where
  "BingSearch config be query =
     (case search_body config be query of
        Inr s \<Rightarrow> Inr s
      | Inl (Exception d) \<Rightarrow> Inr (search_failed @ d)
      | Inl (BaseException d) \<Rightarrow> Inl (BaseException d))"

subsection \<open>Calculation\<close>

text \<open>
  \<open>Calculator.__call__\<close>. The interpreter is a parameter: \<open>py_eval e\<close> is
  \<open>eval(e, {"__builtins__": {}}, {})\<close> and \<open>py_str v\<close> is \<open>str(v)\<close>; both are inside the
  \<open>try\<close> and either of them returns or raises.
\<close>

record 'v evaluator =
  py_eval :: "pystr \<Rightarrow> py_exc + 'v"
  py_str :: "'v \<Rightarrow> py_exc + pystr"

definition calculation_failed :: pystr where
  "calculation_failed = [0x8BA1, 0x7B97, 0x5931, 0x8D25, 58, 32]"

definition calculate_body :: "'v evaluator \<Rightarrow> pystr \<Rightarrow> py_exc + pystr" where
  "calculate_body ev expression =
     (case py_eval ev expression of
        Inl e \<Rightarrow> Inl e
      | Inr result \<Rightarrow> py_str ev result)"

definition Calculator :: "'v evaluator \<Rightarrow> pystr \<Rightarrow> py_exc + pystr" where
  "Calculator ev expression =
     (case calculate_body ev expression of
        Inr s \<Rightarrow> Inr s
      | Inl (Exception d) \<Rightarrow> Inr (calculation_failed @ d)
      | Inl (BaseException d) \<Rightarrow> Inl (BaseException d))"

section \<open>The agent and its transcript\<close>

datatype role = System | User | Assistant

record message =
  role :: role
  content :: pystr

text \<open>
  The language-model client is outside the repository: \<open>agent_answer\<close> takes the
  transcript and returns a completion or raises. Every call sees a longer transcript
  than the one before, so a function of the transcript covers every sequence of
  completions.
\<close>

type_synonym llm_client = "message list \<Rightarrow> py_exc + pystr"

text \<open>\<open>Agent.__init__\<close>: the transcript the agent starts with.\<close>

definition Agent_init :: "pystr \<Rightarrow> message list" where
  "Agent_init system =
     (if system \<noteq> [] then [\<lparr>role = System, content = system\<rparr>] else [])"

text \<open>\<open>Agent.__call__\<close>: the completion and the transcript after the call.\<close>

definition Agent_call :: "llm_client \<Rightarrow> message list \<Rightarrow> pystr \<Rightarrow> py_exc + (pystr \<times> message list)" where
  "Agent_call llm messages msg =
     (let messages1 =
        (if msg \<noteq> [] then messages @ [\<lparr>role = User, content = msg\<rparr>] else messages)
      in case llm messages1 of
           Inl e \<Rightarrow> Inl e
         | Inr result \<Rightarrow> Inr (result, messages1 @ [\<lparr>role = Assistant, content = result\<rparr>]))"

section \<open>The orchestration loop\<close>

text \<open>
  A capability is called with its argument. It may answer the same argument differently
  at different moments of a run (a search does), so it also receives the number of
  capability calls made before this one. It returns text, or raises what its own
  \<open>except Exception\<close> does not catch.
\<close>

type_synonym tool = "nat \<Rightarrow> pystr \<Rightarrow> py_exc + pystr"

text \<open>\<open>ReActLoop.__init__\<close>: the registry.\<close>

definition ReActLoop_tools :: "Config \<Rightarrow> (nat \<Rightarrow> backend) \<Rightarrow> (nat \<Rightarrow> 'v evaluator) \<Rightarrow> (pystr \<rightharpoonup> tool)" where
  "ReActLoop_tools config be ev =
     [ascii ''wikipedia'' \<mapsto> (\<lambda>t. BingSearch config (be t)),
      ascii ''calculate'' \<mapsto> (\<lambda>t. Calculator (ev t))]"

text \<open>
  The state of a run: the agent's transcript, the loop's \<open>next_prompt\<close>, and a record
  of what the run has done so far: the loop bodies entered, the completions requested
  from the client and the capability calls made, in order, each with its name and
  argument.
\<close>

record loop_state =
  messages :: "message list"
  next_prompt :: pystr
  iteration_count :: nat
  completions_requested :: nat
  invoked :: "(pystr \<times> pystr) list"

datatype step = Return pystr loop_state | Continue loop_state

text \<open>The state when \<open>run\<close> enters its loop.\<close>

definition initial_state :: "message list \<Rightarrow> pystr \<Rightarrow> loop_state" where
  "initial_state agent_messages query =
     \<lparr>messages = agent_messages, next_prompt = query, iteration_count = 0,
      completions_requested = 0, invoked = []\<rparr>"

text \<open>The state once \<open>agent(next_prompt)\<close> has returned and left the transcript \<open>messages'\<close>.\<close>

definition completed :: "loop_state \<Rightarrow> message list \<Rightarrow> loop_state" where
  "completed st messages' =
     st\<lparr>messages := messages',
        iteration_count := iteration_count st + 1,
        completions_requested := completions_requested st + 1\<rparr>"

definition limit_reached :: pystr where
  "limit_reached =
     [0x8FBE, 0x5230, 0x6700, 0x5927, 0x8FED, 0x4EE3, 0x6B21, 0x6570, 0x9650, 0x5236]"

definition observation :: "pystr \<Rightarrow> pystr" where
  "observation result_tool = ascii ''Observation: '' @ result_tool"

definition tool_not_found :: "pystr \<Rightarrow> pystr" where
  "tool_not_found tool_name =
     ascii ''Observation: Tool '' @ [39] @ tool_name @ [39] @ ascii '' not found''"

text \<open>The body of the \<open>for\<close> loop of \<open>ReActLoop.run\<close>.\<close>

definition iteration :: "(pystr \<rightharpoonup> tool) \<Rightarrow> llm_client \<Rightarrow> loop_state \<Rightarrow> py_exc + step" where
  "iteration tools llm st =
     (case Agent_call llm (messages st) (next_prompt st) of
        Inl e \<Rightarrow> Inl e
      | Inr (result, messages') \<Rightarrow>
          (let st1 = completed st messages' in
           if contains (ascii ''Answer'') result then Inr (Return result st1)
           else if \<not> contains (ascii ''PAUSE'') result \<or> \<not> contains (ascii ''Action'') result
             then Inr (Continue st1)
           else
             (case extract_action result of
                None \<Rightarrow> Inr (Continue st1)
              | Some (tool_name, arg) \<Rightarrow>
                  (case tools tool_name of
                     Some tool \<Rightarrow>
                       (case tool (length (invoked st1)) arg of
                          Inl e \<Rightarrow> Inl e
                        | Inr result_tool \<Rightarrow>
                            Inr (Continue (st1\<lparr>invoked := invoked st1 @ [(tool_name, arg)],
                                               next_prompt := observation result_tool\<rparr>)))
                   | None \<Rightarrow>
                       Inr (Continue (st1\<lparr>next_prompt := tool_not_found tool_name\<rparr>))))))"

text \<open>\<open>for i in range(n)\<close> with \<open>n\<close> bodies still to run, then the final \<open>return\<close>.\<close>

fun run_loop :: "(pystr \<rightharpoonup> tool) \<Rightarrow> llm_client \<Rightarrow> nat \<Rightarrow> loop_state \<Rightarrow> py_exc + (pystr \<times> loop_state)" where
  "run_loop tools llm 0 st = Inr (limit_reached, st)"
| "run_loop tools llm (Suc n) st =
     (case iteration tools llm st of
        Inl e \<Rightarrow> Inl e
      | Inr (Return result st') \<Rightarrow> Inr (result, st')
      | Inr (Continue st') \<Rightarrow> run_loop tools llm n st')"

text \<open>
  \<open>ReActLoop.run(agent, query)\<close>, with \<open>agent_messages\<close> the transcript of \<open>agent\<close> when
  the run starts. \<open>range\<close> of a number below one is empty.
\<close>

definition run :: "Config \<Rightarrow> (pystr \<rightharpoonup> tool) \<Rightarrow> llm_client \<Rightarrow> message list \<Rightarrow> pystr \<Rightarrow> py_exc + (pystr \<times> loop_state)" where
  "run config tools llm agent_messages query =
     run_loop tools llm (nat (MAX_ITERATIONS config)) (initial_state agent_messages query)"

section \<open>Notions the properties are stated with\<close>

text \<open>
  The pattern \<open>Action: <name>: <rest-of-line>\<close> read as a relation: \<open>s\<close> begins with
  \<open>Action: \<close> in any letter case, then the non-empty \<open>name\<close> of name characters, a colon
  and a space, then the non-empty \<open>rest\<close> that runs to the end of the line.
\<close>

definition matches_at :: "pystr \<Rightarrow> pystr \<Rightarrow> pystr \<Rightarrow> bool" where
  "matches_at s name rest \<longleftrightarrow>
     (\<exists>lit post.
        s = lit @ name @ [58, 32] @ rest @ post
        \<and> list_all2 ignorecase_eq (ascii ''Action: '') lit
        \<and> name \<noteq> [] \<and> list_all name_char name
        \<and> rest \<noteq> [] \<and> 10 \<notin> set rest
        \<and> (post = [] \<or> hd post = 10))"

text \<open>A transcript of prompts and completions in turn.\<close>

fun exchanges :: "(pystr \<times> pystr) list \<Rightarrow> message list" where
  "exchanges [] = []"
| "exchanges ((prompt, completion) # xs) =
     \<lparr>role = User, content = prompt\<rparr> # \<lparr>role = Assistant, content = completion\<rparr> # exchanges xs"

text \<open>The line of a result block that has both a heading and a caption.\<close>

definition result_line :: "item \<Rightarrow> pystr option" where
  "result_line it =
     (case (h2_text it, caption_text it) of
        (Some title, Some desc) \<Rightarrow> Some (format_result title desc)
      | _ \<Rightarrow> None)"


text \<open>Two names that differ, and only in the case of their ASCII letters.\<close>

definition to_lower :: "nat \<Rightarrow> nat" where
  "to_lower c = (if 65 \<le> c \<and> c \<le> 90 then c + 32 else c)"

definition differs_only_in_case :: "pystr \<Rightarrow> pystr \<Rightarrow> bool" where
  "differs_only_in_case a b \<longleftrightarrow> a \<noteq> b \<and> map to_lower a = map to_lower b"

text \<open>
  Collaborators to run the definitions on: a client that answers with the completions
  of a list in turn; a search backend that is off line, one that serves a page with the
  given result blocks, and one whose request is interrupted from the keyboard; an
  interpreter that knows no name, and one in which the expression exits the process.
\<close>

definition replay :: "pystr list \<Rightarrow> llm_client" where
  "replay completions ms =
     (let i = length (filter (\<lambda>m. role m = Assistant) ms) in
      if i < length completions then Inr (completions ! i)
      else Inl (Exception (ascii ''no completion'')))"

definition offline_backend :: backend where
  "offline_backend =
     \<lparr>http_get = (\<lambda>url params. Inl (Exception (ascii ''offline''))),
      raise_for_status = (\<lambda>resp. Inr ()),
      select_results = (\<lambda>text. Inr [])\<rparr>"

definition no_name_evaluator :: "unit evaluator" where
  "no_name_evaluator =
     \<lparr>py_eval = (\<lambda>expression. Inl (Exception (ascii ''name is not defined''))),
      py_str = (\<lambda>v. Inr (ascii ''None''))\<rparr>"

definition serving_backend :: "item list \<Rightarrow> backend" where
  "serving_backend items =
     \<lparr>http_get = (\<lambda>url params. Inr \<lparr>status_code = 200, body_text = []\<rparr>),
      raise_for_status = (\<lambda>resp. Inr ()),
      select_results = (\<lambda>text. Inr items)\<rparr>"



section \<open>Facts about text and the parser\<close>

lemma starts_with_iff: "starts_with p s \<longleftrightarrow> (\<exists>post. s = p @ post)"
  by (induction p s rule: starts_with.induct) auto

lemma contains_iff: "contains needle hay \<longleftrightarrow> (\<exists>pre post. hay = pre @ needle @ post)"
proof (induction hay)
  case Nil
  then show ?case by auto
next
  case (Cons c cs)
  show ?case
  proof
    assume "contains needle (c # cs)"
    then consider "starts_with needle (c # cs)" | "contains needle cs" by auto
    then show "\<exists>pre post. c # cs = pre @ needle @ post"
    proof cases
      case 1
      then obtain post where "c # cs = needle @ post" by (auto simp: starts_with_iff)
      then have "c # cs = [] @ needle @ post" by simp
      then show ?thesis by blast
    next
      case 2
      then obtain pre post where "cs = pre @ needle @ post" using Cons.IH by auto
      then have "c # cs = (c # pre) @ needle @ post" by simp
      then show ?thesis by blast
    qed
  next
    assume "\<exists>pre post. c # cs = pre @ needle @ post"
    then obtain pre post where eq: "c # cs = pre @ needle @ post" by blast
    show "contains needle (c # cs)"
    proof (cases pre)
      case Nil
      with eq have "starts_with needle (c # cs)" by (auto simp: starts_with_iff)
      then show ?thesis by simp
    next
      case (Cons a pre')
      with eq have "cs = pre' @ needle @ post" by simp
      then have "contains needle cs" using Cons.IH by blast
      then show ?thesis by simp
    qed
  qed
qed

lemma match_literal_iff:
  "match_literal p s = Some r \<longleftrightarrow> (\<exists>lit. s = lit @ r \<and> list_all2 ignorecase_eq p lit)"
proof (induction p s rule: match_literal.induct)
  case (1 s)
  then show ?case by auto
next
  case (2 p ps)
  then show ?case by (auto simp: list_all2_Cons1)
next
  case (3 p ps c cs)
  then show ?case by (auto simp: list_all2_Cons1 Cons_eq_append_conv)
qed

lemma not_name_char_colon: "\<not> name_char 58"
  by (simp add: name_char_def)

lemma takeWhile_name:
  "list_all name_char name \<Longrightarrow> takeWhile name_char (name @ 58 # r) = name"
  by (induction name) (auto simp: not_name_char_colon)

lemma dropWhile_name:
  "list_all name_char name \<Longrightarrow> dropWhile name_char (name @ 58 # r) = 58 # r"
  by (induction name) (auto simp: not_name_char_colon)

lemma takeWhile_line:
  "10 \<notin> set rest \<Longrightarrow> post = [] \<or> hd post = 10 \<Longrightarrow> takeWhile (\<lambda>c. c \<noteq> (10::nat)) (rest @ post) = rest"
  by (cases post) (auto simp: takeWhile_append2 takeWhile_tail)

lemma match_here_complete:
  assumes "matches_at s name rest"
  shows "match_here s = Some (name, rest)"
proof -
  from assms obtain lit post where
    s: "s = lit @ name @ [58, 32] @ rest @ post" and
    lit: "list_all2 ignorecase_eq (ascii ''Action: '') lit" and
    name: "name \<noteq> []" "list_all name_char name" and
    rest: "rest \<noteq> []" "10 \<notin> set rest" and
    post: "post = [] \<or> hd post = 10"
    unfolding matches_at_def by blast
  have "match_literal (ascii ''Action: '') s = Some (name @ 58 # 32 # rest @ post)"
    using s lit by (auto simp: match_literal_iff)
  moreover have "takeWhile name_char (name @ 58 # 32 # rest @ post) = name"
    using name by (simp add: takeWhile_name)
  moreover have "dropWhile name_char (name @ 58 # 32 # rest @ post) = 58 # 32 # rest @ post"
    using name by (simp add: dropWhile_name)
  moreover have "takeWhile (\<lambda>c. c \<noteq> (10::nat)) (rest @ post) = rest"
    using rest(2) post by (rule takeWhile_line)
  ultimately show ?thesis
    using name rest by (simp add: match_here_def)
qed

lemma match_here_sound:
  assumes "match_here s = Some (name, rest)"
  shows "matches_at s name rest"
proof -
  from assms obtain r1 where r1: "match_literal (ascii ''Action: '') s = Some r1"
    by (auto simp: match_here_def split: option.splits)
  from assms r1 have name: "name = takeWhile name_char r1" "name \<noteq> []"
    by (auto simp: match_here_def Let_def split: option.splits if_splits list.splits)
  from assms r1 obtain r3 where r3: "dropWhile name_char r1 = 58 # 32 # r3"
    and rest: "rest = takeWhile (\<lambda>c. c \<noteq> 10) r3" "rest \<noteq> []"
    by (auto simp: match_here_def Let_def split: option.splits if_splits list.splits)
  from r1 obtain lit where lit: "s = lit @ r1" "list_all2 ignorecase_eq (ascii ''Action: '') lit"
    by (auto simp: match_literal_iff)
  define post where "post = dropWhile (\<lambda>c. c \<noteq> (10::nat)) r3"
  have "r1 = name @ 58 # 32 # r3"
    using name r3 takeWhile_dropWhile_id[of name_char r1] by simp
  moreover have "r3 = rest @ post"
    using rest post_def by simp
  ultimately have "s = lit @ name @ [58, 32] @ rest @ post"
    using lit by simp
  moreover have "list_all name_char name"
    using name by (simp add: list_all_iff) (meson set_takeWhileD)
  moreover have "10 \<notin> set rest"
    using rest by (auto dest: set_takeWhileD)
  moreover have "post = [] \<or> hd post = 10"
    unfolding post_def using hd_dropWhile[of "\<lambda>c. c \<noteq> (10::nat)" r3] by auto
  ultimately show ?thesis
    unfolding matches_at_def using lit name rest by blast
qed

lemma match_here_iff: "match_here s = Some (name, rest) \<longleftrightarrow> matches_at s name rest"
  using match_here_sound match_here_complete by blast


lemma extract_action_Some_iff:
  "extract_action t = Some m \<longleftrightarrow>
     (\<exists>pre s. t = pre @ s \<and> match_here s = Some m
        \<and> (\<forall>pre' s'. t = pre' @ s' \<and> length pre' < length pre \<longrightarrow> match_here s' = None))"
proof (induction t)
  case Nil
  then show ?case by (simp add: match_here_def ascii_def)
next
  case (Cons c cs)
  show ?case
  proof (cases "match_here (c # cs)")
    case (Some m')
    show ?thesis
    proof
      assume "extract_action (c # cs) = Some m"
      with Some have "m' = m" by simp
      with Some have "c # cs = [] @ (c # cs) \<and> match_here (c # cs) = Some m
        \<and> (\<forall>pre' s'. c # cs = pre' @ s' \<and> length pre' < length ([]::nat list) \<longrightarrow> match_here s' = None)"
        by simp
      then show "\<exists>pre s. c # cs = pre @ s \<and> match_here s = Some m
        \<and> (\<forall>pre' s'. c # cs = pre' @ s' \<and> length pre' < length pre \<longrightarrow> match_here s' = None)"
        by blast
    next
      assume "\<exists>pre s. c # cs = pre @ s \<and> match_here s = Some m
        \<and> (\<forall>pre' s'. c # cs = pre' @ s' \<and> length pre' < length pre \<longrightarrow> match_here s' = None)"
      then obtain pre s where eq: "c # cs = pre @ s" and ms: "match_here s = Some m"
        and first: "\<forall>pre' s'. c # cs = pre' @ s' \<and> length pre' < length pre \<longrightarrow> match_here s' = None"
        by blast
      have "pre = []"
      proof (rule ccontr)
        assume "pre \<noteq> []"
        then have "length ([]::nat list) < length pre" by simp
        with first have "match_here (c # cs) = None" by (metis append_Nil)
        with Some show False by simp
      qed
      with eq have "s = c # cs" by simp
      with ms Some show "extract_action (c # cs) = Some m" by simp
    qed
  next
    case None
    then have step: "extract_action (c # cs) = extract_action cs" by simp
    show ?thesis
    proof
      assume "extract_action (c # cs) = Some m"
      with step Cons.IH obtain pre s where eq: "cs = pre @ s" and ms: "match_here s = Some m"
        and first: "\<forall>pre' s'. cs = pre' @ s' \<and> length pre' < length pre \<longrightarrow> match_here s' = None"
        by auto
      have "\<forall>pre' s'. c # cs = pre' @ s' \<and> length pre' < length (c # pre) \<longrightarrow> match_here s' = None"
      proof (intro allI impI)
        fix pre' s' assume a: "c # cs = pre' @ s' \<and> length pre' < length (c # pre)"
        show "match_here s' = None"
        proof (cases pre')
          case Nil
          with a None show ?thesis by simp
        next
          case (Cons a' p')
          with a have "cs = p' @ s' \<and> length p' < length pre" by simp
          with first show ?thesis by blast
        qed
      qed
      moreover have "c # cs = (c # pre) @ s" using eq by simp
      ultimately show "\<exists>pre s. c # cs = pre @ s \<and> match_here s = Some m
        \<and> (\<forall>pre' s'. c # cs = pre' @ s' \<and> length pre' < length pre \<longrightarrow> match_here s' = None)"
        using ms by blast
    next
      assume "\<exists>pre s. c # cs = pre @ s \<and> match_here s = Some m
        \<and> (\<forall>pre' s'. c # cs = pre' @ s' \<and> length pre' < length pre \<longrightarrow> match_here s' = None)"
      then obtain pre s where eq: "c # cs = pre @ s" and ms: "match_here s = Some m"
        and first: "\<forall>pre' s'. c # cs = pre' @ s' \<and> length pre' < length pre \<longrightarrow> match_here s' = None"
        by blast
      from eq ms None obtain p where pre: "pre = c # p" and eq': "cs = p @ s"
        by (cases pre) auto
      have "\<forall>pre' s'. cs = pre' @ s' \<and> length pre' < length p \<longrightarrow> match_here s' = None"
      proof (intro allI impI)
        fix pre' s' assume a: "cs = pre' @ s' \<and> length pre' < length p"
        then have "c # cs = (c # pre') @ s' \<and> length (c # pre') < length pre"
          using pre by simp
        with first show "match_here s' = None" by blast
      qed
      with eq' ms have "extract_action cs = Some m" using Cons.IH by blast
      with step show "extract_action (c # cs) = Some m" by simp
    qed
  qed
qed

lemma extract_action_verbatim:
  assumes "extract_action t = Some (name, rest)"
  shows "contains (name @ ascii '': '' @ rest) t"
proof -
  from assms obtain pre s where t: "t = pre @ s" and m: "match_here s = Some (name, rest)"
    unfolding extract_action_Some_iff by blast
  from m have "matches_at s name rest" by (simp add: match_here_iff)
  then obtain lit post where "s = lit @ name @ [58, 32] @ rest @ post"
    unfolding matches_at_def by blast
  with t have "t = (pre @ lit) @ (name @ ascii '': '' @ rest) @ post"
    by (simp add: ascii_def)
  then show ?thesis unfolding contains_iff by blast
qed

section \<open>Facts about the loop\<close>

lemma exchanges_append: "exchanges (xs @ ys) = exchanges xs @ exchanges ys"
  by (induction xs rule: exchanges.induct) auto

lemma exchanges_roles:
  "length (filter (\<lambda>m. role m = User) (exchanges xs)) = length xs
   \<and> length (filter (\<lambda>m. role m = Assistant) (exchanges xs)) = length xs
   \<and> filter (\<lambda>m. role m = System) (exchanges xs) = []"
  by (induction xs rule: exchanges.induct) auto

lemma exchanges_no_System: "m \<in> set (exchanges xs) \<Longrightarrow> role m \<noteq> System"
  by (induction xs rule: exchanges.induct) auto

lemma Agent_call_cases:
  "Agent_call llm ms msg = Inr (result, ms') \<Longrightarrow> msg \<noteq> [] \<Longrightarrow>
     llm (ms @ [\<lparr>role = User, content = msg\<rparr>]) = Inr result
     \<and> ms' = ms @ exchanges [(msg, result)]"
  by (auto simp: Agent_call_def Let_def split: sum.splits)

lemma iteration_unfold:
  assumes "Agent_call llm (messages st) (next_prompt st) = Inr (result, ms')"
  shows "iteration tools llm st =
     (if contains (ascii ''Answer'') result then Inr (Return result (completed st ms'))
      else if \<not> contains (ascii ''PAUSE'') result \<or> \<not> contains (ascii ''Action'') result
        then Inr (Continue (completed st ms'))
      else
        (case extract_action result of
           None \<Rightarrow> Inr (Continue (completed st ms'))
         | Some (tool_name, arg) \<Rightarrow>
             (case tools tool_name of
                Some tool \<Rightarrow>
                  (case tool (length (invoked st)) arg of
                     Inl e \<Rightarrow> Inl e
                   | Inr result_tool \<Rightarrow>
                       Inr (Continue (completed st ms'\<lparr>invoked := invoked st @ [(tool_name, arg)],
                                          next_prompt := observation result_tool\<rparr>)))
              | None \<Rightarrow>
                  Inr (Continue (completed st ms'\<lparr>next_prompt := tool_not_found tool_name\<rparr>)))))"
proof -
  have "invoked (completed st ms') = invoked st"
    by (simp add: completed_def)
  with assms show ?thesis
    by (simp add: iteration_def Let_def split: option.split sum.split prod.split)
qed

lemma observation_nonempty: "observation s \<noteq> []"
  by (simp add: observation_def ascii_def)

lemma tool_not_found_nonempty: "tool_not_found s \<noteq> []"
  by (simp add: tool_not_found_def ascii_def)

lemma iteration_transcript:
  assumes "next_prompt st \<noteq> []" and "iteration tools llm st = Inr stp"
  shows "\<exists>c st'. (stp = Return c st' \<or> (stp = Continue st' \<and> next_prompt st' \<noteq> []))
           \<and> messages st' = messages st @ exchanges [(next_prompt st, c)]
           \<and> iteration_count st' = Suc (iteration_count st)"
proof -
  from assms(2) obtain result ms' where
    call: "Agent_call llm (messages st) (next_prompt st) = Inr (result, ms')"
    by (auto simp: iteration_def split: sum.splits)
  then have ms': "ms' = messages st @ exchanges [(next_prompt st, result)]"
    using assms(1) Agent_call_cases by blast
  have np: "next_prompt (completed st ms') = next_prompt st"
    and ic: "iteration_count (completed st ms') = Suc (iteration_count st)"
    and cm: "messages (completed st ms') = ms'"
    by (simp_all add: completed_def)
  from assms(2) show ?thesis
    unfolding iteration_unfold[OF call]
    using assms(1) ms' np ic cm
    by (auto simp: observation_nonempty tool_not_found_nonempty
             split: if_splits option.splits sum.splits)
qed

lemma run_loop_transcript:
  "next_prompt st \<noteq> [] \<Longrightarrow> run_loop tools llm n st = Inr (r, st') \<Longrightarrow>
     \<exists>xs. messages st' = messages st @ exchanges xs
          \<and> iteration_count st' = iteration_count st + length xs"
proof (induction n arbitrary: st)
  case 0
  then have "messages st' = messages st @ exchanges [] \<and> iteration_count st' = iteration_count st + length ([]::(pystr \<times> pystr) list)"
    by simp
  then show ?case by blast
next
  case (Suc n)
  from Suc.prems(2) obtain stp where it: "iteration tools llm st = Inr stp"
    by (auto split: sum.splits)
  from iteration_transcript[OF Suc.prems(1) it] obtain c st1 where
    stp: "stp = Return c st1 \<or> (stp = Continue st1 \<and> next_prompt st1 \<noteq> [])" and
    ms: "messages st1 = messages st @ exchanges [(next_prompt st, c)]" and
    ic: "iteration_count st1 = Suc (iteration_count st)"
    by blast
  from stp show ?case
  proof
    assume "stp = Return c st1"
    with it Suc.prems(2) have "st' = st1" by simp
    with ms ic have "messages st' = messages st @ exchanges [(next_prompt st, c)]
       \<and> iteration_count st' = iteration_count st + length [(next_prompt st, c)]" by simp
    then show ?thesis by blast
  next
    assume a: "stp = Continue st1 \<and> next_prompt st1 \<noteq> []"
    with it Suc.prems(2) have "run_loop tools llm n st1 = Inr (r, st')" by simp
    with a Suc.IH obtain xs where
      "messages st' = messages st1 @ exchanges xs" "iteration_count st' = iteration_count st1 + length xs"
      by blast
    with ms ic have "messages st' = messages st @ exchanges ((next_prompt st, c) # xs)
       \<and> iteration_count st' = iteration_count st + length ((next_prompt st, c) # xs)" by simp
    then show ?thesis by blast
  qed
qed



lemma differs_only_in_case_keys:
  assumes "differs_only_in_case tool_name key"
      and "key \<in> dom (ReActLoop_tools config be ev)"
  shows "ReActLoop_tools config be ev tool_name = None"
proof -
  have lw: "map to_lower (ascii ''wikipedia'') = ascii ''wikipedia''"
    and lc: "map to_lower (ascii ''calculate'') = ascii ''calculate''"
    by (simp_all add: ascii_def to_lower_def)
  from assms(2) have k: "key = ascii ''wikipedia'' \<or> key = ascii ''calculate''"
    by (auto simp: ReActLoop_tools_def split: if_splits)
  from assms(1) have ne: "tool_name \<noteq> key" and eq: "map to_lower tool_name = map to_lower key"
    by (simp_all add: differs_only_in_case_def)
  have "tool_name \<noteq> ascii ''wikipedia''"
  proof
    assume a: "tool_name = ascii ''wikipedia''"
    with k ne have "key = ascii ''calculate''" by auto
    with a eq lw lc have "ascii ''wikipedia'' = ascii ''calculate''" by simp
    then show False by (simp add: ascii_def)
  qed
  moreover have "tool_name \<noteq> ascii ''calculate''"
  proof
    assume a: "tool_name = ascii ''calculate''"
    with k ne have "key = ascii ''wikipedia''" by auto
    with a eq lw lc have "ascii ''calculate'' = ascii ''wikipedia''" by simp
    then show False by (simp add: ascii_def)
  qed
  ultimately show ?thesis by (simp add: ReActLoop_tools_def)
qed

section \<open>Facts about the search capability\<close>

lemma collect_results_take:
  "length acc < 5 \<Longrightarrow>
     collect_results items acc = take 5 (acc @ List.map_filter result_line items)"
proof (induction items arbitrary: acc)
  case Nil
  then show ?case by (simp add: List.map_filter_simps)
next
  case (Cons it items)
  show ?case
  proof (cases "result_line it")
    case None
    then have "(case (h2_text it, caption_text it) of
                 (Some title, Some desc) \<Rightarrow> acc @ [format_result title desc]
               | _ \<Rightarrow> acc) = acc"
      by (auto simp: result_line_def split: option.splits)
    with None Cons show ?thesis by (simp add: List.map_filter_simps Let_def)
  next
    case (Some l)
    then have r: "(case (h2_text it, caption_text it) of
                 (Some title, Some desc) \<Rightarrow> acc @ [format_result title desc]
               | _ \<Rightarrow> acc) = acc @ [l]"
      by (auto simp: result_line_def split: option.splits)
    show ?thesis
    proof (cases "length (acc @ [l]) \<ge> 5")
      case True
      with Cons.prems have "length (acc @ [l]) = 5" by simp
      then have "take 5 ((acc @ [l]) @ List.map_filter result_line items) = acc @ [l]"
        by (metis append_eq_conv_conj)
      with True r Some show ?thesis by (simp add: List.map_filter_simps Let_def)
    next
      case False
      then have "length (acc @ [l]) < 5" by simp
      from Cons.IH[OF this] False r Some show ?thesis
        by (simp add: List.map_filter_simps Let_def)
    qed
  qed
qed

lemma join_nonempty: "xs \<noteq> [] \<Longrightarrow> hd xs \<noteq> [] \<Longrightarrow> join sep xs \<noteq> []"
  by (induction sep xs rule: join.induct) auto

lemma format_result_nonempty: "format_result title desc \<noteq> []"
  by (simp add: format_result_def ascii_def)

lemma result_line_nonempty: "result_line it = Some l \<Longrightarrow> l \<noteq> []"
  by (auto simp: result_line_def format_result_nonempty split: option.splits)

lemma map_filter_result_line_nonempty:
  "l \<in> set (List.map_filter result_line items) \<Longrightarrow> l \<noteq> []"
  by (auto simp: List.map_filter_def result_line_nonempty)

lemma search_body_success:
  assumes "http_get be (SEARCH_API config) ((SEARCH_PARAMS config)(ascii ''q'' \<mapsto> query)) = Inr resp"
      and "raise_for_status be resp = Inr ok"
      and "select_results be (body_text resp) = Inr items"
  shows "search_body config be query =
           Inr (if List.map_filter result_line items = [] then no_results
                else join [10] (take 5 (List.map_filter result_line items)))"
  using assms collect_results_take[of "[]" items]
  by (simp add: search_body_def Let_def)

section \<open>The termination check\<close>

text \<open>
  C1. When the completion of an iteration contains \<open>Answer\<close> anywhere, that iteration
  ends the run: the body returns the completion itself, the run's result is that text
  unchanged, and no capability is called, whatever else the completion holds (it may
  hold \<open>Action\<close> and \<open>PAUSE\<close> as well). The state only records the completion.
\<close>

theorem answer_returns_completion:
  assumes "Agent_call llm (messages st) (next_prompt st) = Inr (result, ms')"
      and "contains (ascii ''Answer'') result"
  shows "iteration tools llm st = Inr (Return result (completed st ms'))
         \<and> run_loop tools llm (Suc n) st = Inr (result, completed st ms')
         \<and> invoked (completed st ms') = invoked st"
  using assms by (simp add: iteration_unfold completed_def)

theorem answer_returns_completion_witness:
  "run_loop (ReActLoop_tools default_config (\<lambda>k. offline_backend) (\<lambda>k. no_name_evaluator))
     (replay [ascii ''Action: calculate: 2 + 2\<newline>PAUSE\<newline>Answer: 4''])
     (Suc 9) (initial_state [] (ascii ''What is 2 + 2?''))
   = Inr (ascii ''Action: calculate: 2 + 2\<newline>PAUSE\<newline>Answer: 4'',
          completed (initial_state [] (ascii ''What is 2 + 2?''))
            (exchanges [(ascii ''What is 2 + 2?'', ascii ''Action: calculate: 2 + 2\<newline>PAUSE\<newline>Answer: 4'')]))"
proof -
  have call: "Agent_call (replay [ascii ''Action: calculate: 2 + 2\<newline>PAUSE\<newline>Answer: 4''])
      (messages (initial_state [] (ascii ''What is 2 + 2?'')))
      (next_prompt (initial_state [] (ascii ''What is 2 + 2?'')))
    = Inr (ascii ''Action: calculate: 2 + 2\<newline>PAUSE\<newline>Answer: 4'',
           exchanges [(ascii ''What is 2 + 2?'', ascii ''Action: calculate: 2 + 2\<newline>PAUSE\<newline>Answer: 4'')])"
    by (simp add: Agent_call_def replay_def initial_state_def ascii_def)
  have ans: "contains (ascii ''Answer'') (ascii ''Action: calculate: 2 + 2\<newline>PAUSE\<newline>Answer: 4'')"
    by (simp add: ascii_def)
  from answer_returns_completion[OF call ans] show ?thesis by blast
qed

section \<open>The format check\<close>

text \<open>
  C3. When the completion does not contain \<open>Answer\<close> and lacks \<open>PAUSE\<close> or lacks
  \<open>Action\<close>, the iteration calls no capability, counts as one iteration, and the loop
  goes on with \<open>next_prompt\<close> as it was.
\<close>

theorem malformed_completion_skips:
  assumes "Agent_call llm (messages st) (next_prompt st) = Inr (result, ms')"
      and "\<not> contains (ascii ''Answer'') result"
      and "\<not> contains (ascii ''PAUSE'') result \<or> \<not> contains (ascii ''Action'') result"
  shows "iteration tools llm st = Inr (Continue (completed st ms'))
         \<and> run_loop tools llm (Suc n) st = run_loop tools llm n (completed st ms')
         \<and> invoked (completed st ms') = invoked st
         \<and> next_prompt (completed st ms') = next_prompt st
         \<and> iteration_count (completed st ms') = iteration_count st + 1"
  using assms by (auto simp add: iteration_unfold completed_def)

theorem malformed_completion_skips_witness:
  "iteration (ReActLoop_tools default_config (\<lambda>k. offline_backend) (\<lambda>k. no_name_evaluator))
     (replay [ascii ''Action: calculate: 2 + 2''])
     (initial_state [] (ascii ''What is 2 + 2?''))
   = Inr (Continue (completed (initial_state [] (ascii ''What is 2 + 2?''))
            (exchanges [(ascii ''What is 2 + 2?'', ascii ''Action: calculate: 2 + 2'')])))"
proof -
  have call: "Agent_call (replay [ascii ''Action: calculate: 2 + 2''])
      (messages (initial_state [] (ascii ''What is 2 + 2?'')))
      (next_prompt (initial_state [] (ascii ''What is 2 + 2?'')))
    = Inr (ascii ''Action: calculate: 2 + 2'',
           exchanges [(ascii ''What is 2 + 2?'', ascii ''Action: calculate: 2 + 2'')])"
    by (simp add: Agent_call_def replay_def initial_state_def ascii_def)
  have na: "\<not> contains (ascii ''Answer'') (ascii ''Action: calculate: 2 + 2'')"
    by (simp add: ascii_def)
  have np: "\<not> contains (ascii ''PAUSE'') (ascii ''Action: calculate: 2 + 2'')
            \<or> \<not> contains (ascii ''Action'') (ascii ''Action: calculate: 2 + 2'')"
    by (simp add: ascii_def)
  from malformed_completion_skips[OF call na np] show ?thesis by blast
qed

section \<open>Directive extraction\<close>



section \<open>Dispatch\<close>

text \<open>
  C5. When the loop has extracted a directive whose name is not a key of the registry,
  the iteration does not fail: the next prompt is \<open>Observation: Tool '<name>' not found\<close>
  and the loop goes on to the next iteration. For the completion
  \<open>Action: unknown_tool: foo\<close>, \<open>PAUSE\<close> the next prompt is
  \<open>Observation: Tool 'unknown_tool' not found\<close>.
\<close>

theorem unknown_tool_observation:
  assumes "Agent_call llm (messages st) (next_prompt st) = Inr (result, ms')"
      and "\<not> contains (ascii ''Answer'') result"
      and "contains (ascii ''PAUSE'') result" and "contains (ascii ''Action'') result"
      and "extract_action result = Some (tool_name, arg)"
      and "tools tool_name = None"
  shows "iteration tools llm st =
           Inr (Continue (completed st ms'\<lparr>next_prompt := tool_not_found tool_name\<rparr>))
         \<and> run_loop tools llm (Suc n) st =
             run_loop tools llm n (completed st ms'\<lparr>next_prompt := tool_not_found tool_name\<rparr>)
         \<and> tool_not_found tool_name =
             ascii ''Observation: Tool '' @ [39] @ tool_name @ [39] @ ascii '' not found''"
  using assms by (simp add: iteration_unfold tool_not_found_def)

theorem unknown_tool_observation_witness:
  "iteration (ReActLoop_tools default_config (\<lambda>k. offline_backend) (\<lambda>k. no_name_evaluator))
     (replay [ascii ''Action: unknown_tool: foo\<newline>PAUSE''])
     (initial_state [] (ascii ''q''))
   = Inr (Continue
       (completed (initial_state [] (ascii ''q''))
          (exchanges [(ascii ''q'', ascii ''Action: unknown_tool: foo\<newline>PAUSE'')])
        \<lparr>next_prompt := ascii ''Observation: Tool '' @ [39] @ ascii ''unknown_tool'' @ [39] @ ascii '' not found''\<rparr>))"
proof -
  have call: "Agent_call (replay [ascii ''Action: unknown_tool: foo\<newline>PAUSE''])
      (messages (initial_state [] (ascii ''q''))) (next_prompt (initial_state [] (ascii ''q'')))
    = Inr (ascii ''Action: unknown_tool: foo\<newline>PAUSE'',
           exchanges [(ascii ''q'', ascii ''Action: unknown_tool: foo\<newline>PAUSE'')])"
    by (simp add: Agent_call_def replay_def initial_state_def ascii_def)
  have na: "\<not> contains (ascii ''Answer'') (ascii ''Action: unknown_tool: foo\<newline>PAUSE'')"
    by (simp add: ascii_def)
  have p: "contains (ascii ''PAUSE'') (ascii ''Action: unknown_tool: foo\<newline>PAUSE'')"
    by (simp add: ascii_def)
  have a: "contains (ascii ''Action'') (ascii ''Action: unknown_tool: foo\<newline>PAUSE'')"
    by (simp add: ascii_def)
  have e: "extract_action (ascii ''Action: unknown_tool: foo\<newline>PAUSE'')
           = Some (ascii ''unknown_tool'', ascii ''foo'')"
    by (simp add: ascii_def match_here_def name_char_def ignorecase_eq_def)
  have t: "ReActLoop_tools default_config (\<lambda>k. offline_backend) (\<lambda>k. no_name_evaluator)
             (ascii ''unknown_tool'') = None"
    by (simp add: ReActLoop_tools_def ascii_def)
  from unknown_tool_observation[where tools = "ReActLoop_tools default_config (\<lambda>k. offline_backend) (\<lambda>k. no_name_evaluator)",
      OF call na p a e t]
  show ?thesis
    by (simp add: tool_not_found_def)
qed

text \<open>
  C10. As the claim is worded it fails on a completion that also contains \<open>Answer\<close>:
  the run returns that completion before it looks for a directive. For every completion
  without \<open>Answer\<close> that contains \<open>PAUSE\<close> and \<open>Action\<close> and whose extracted name
  differs from a key of the registry only in letter case, the parser has kept the name
  as written, the lookup finds nothing, and the iteration calls no capability and leaves
  \<open>Observation: Tool '<name>' not found\<close> as the next prompt.
\<close>

theorem case_variant_not_found:
  assumes "Agent_call llm (messages st) (next_prompt st) = Inr (result, ms')"
      and "\<not> contains (ascii ''Answer'') result"
      and "contains (ascii ''PAUSE'') result" and "contains (ascii ''Action'') result"
      and "extract_action result = Some (tool_name, arg)"
      and "differs_only_in_case tool_name key"
      and "key \<in> dom (ReActLoop_tools config be ev)"
  shows "contains (tool_name @ ascii '': '' @ arg) result
         \<and> ReActLoop_tools config be ev tool_name = None
         \<and> iteration (ReActLoop_tools config be ev) llm st =
             Inr (Continue (completed st ms'\<lparr>next_prompt := tool_not_found tool_name\<rparr>))
         \<and> invoked (completed st ms'\<lparr>next_prompt := tool_not_found tool_name\<rparr>) = invoked st"
  using assms(1-5) differs_only_in_case_keys[OF assms(6,7)] extract_action_verbatim[OF assms(5)]
  by (simp add: iteration_unfold completed_def)

theorem case_variant_not_found_witness:
  "iteration (ReActLoop_tools default_config (\<lambda>k. offline_backend) (\<lambda>k. no_name_evaluator))
     (replay [ascii ''Action: CALCULATE: 1+1\<newline>PAUSE''])
     (initial_state [] (ascii ''q''))
   = Inr (Continue
       (completed (initial_state [] (ascii ''q''))
          (exchanges [(ascii ''q'', ascii ''Action: CALCULATE: 1+1\<newline>PAUSE'')])
        \<lparr>next_prompt := ascii ''Observation: Tool '' @ [39] @ ascii ''CALCULATE'' @ [39] @ ascii '' not found''\<rparr>))"
proof -
  have call: "Agent_call (replay [ascii ''Action: CALCULATE: 1+1\<newline>PAUSE''])
      (messages (initial_state [] (ascii ''q''))) (next_prompt (initial_state [] (ascii ''q'')))
    = Inr (ascii ''Action: CALCULATE: 1+1\<newline>PAUSE'',
           exchanges [(ascii ''q'', ascii ''Action: CALCULATE: 1+1\<newline>PAUSE'')])"
    by (simp add: Agent_call_def replay_def initial_state_def ascii_def)
  have na: "\<not> contains (ascii ''Answer'') (ascii ''Action: CALCULATE: 1+1\<newline>PAUSE'')"
    by (simp add: ascii_def)
  have p: "contains (ascii ''PAUSE'') (ascii ''Action: CALCULATE: 1+1\<newline>PAUSE'')"
    by (simp add: ascii_def)
  have a: "contains (ascii ''Action'') (ascii ''Action: CALCULATE: 1+1\<newline>PAUSE'')"
    by (simp add: ascii_def)
  have e: "extract_action (ascii ''Action: CALCULATE: 1+1\<newline>PAUSE'')
           = Some (ascii ''CALCULATE'', ascii ''1+1'')"
    by (simp add: ascii_def match_here_def name_char_def ignorecase_eq_def)
  have d: "differs_only_in_case (ascii ''CALCULATE'') (ascii ''calculate'')"
    by (simp add: differs_only_in_case_def to_lower_def ascii_def)
  have k: "ascii ''calculate''
             \<in> dom (ReActLoop_tools default_config (\<lambda>k. offline_backend) (\<lambda>k. no_name_evaluator))"
    by (simp add: ReActLoop_tools_def)
  from case_variant_not_found[OF call na p a e d k] show ?thesis
    by (simp add: tool_not_found_def)
qed

theorem case_variant_not_found_counterexample:
  "contains (ascii ''PAUSE'') (ascii ''Thought: the Answer needs a sum\<newline>Action: CALCULATE: 1+1\<newline>PAUSE'')
   \<and> contains (ascii ''Action'') (ascii ''Thought: the Answer needs a sum\<newline>Action: CALCULATE: 1+1\<newline>PAUSE'')
   \<and> extract_action (ascii ''Thought: the Answer needs a sum\<newline>Action: CALCULATE: 1+1\<newline>PAUSE'')
       = Some (ascii ''CALCULATE'', ascii ''1+1'')
   \<and> differs_only_in_case (ascii ''CALCULATE'') (ascii ''calculate'')
   \<and> iteration (ReActLoop_tools default_config (\<lambda>k. offline_backend) (\<lambda>k. no_name_evaluator))
        (replay [ascii ''Thought: the Answer needs a sum\<newline>Action: CALCULATE: 1+1\<newline>PAUSE''])
        (initial_state [] (ascii ''q''))
     = Inr (Return (ascii ''Thought: the Answer needs a sum\<newline>Action: CALCULATE: 1+1\<newline>PAUSE'')
         (completed (initial_state [] (ascii ''q''))
            (exchanges [(ascii ''q'', ascii ''Thought: the Answer needs a sum\<newline>Action: CALCULATE: 1+1\<newline>PAUSE'')])))"
proof (intro conjI)
  show "contains (ascii ''PAUSE'') (ascii ''Thought: the Answer needs a sum\<newline>Action: CALCULATE: 1+1\<newline>PAUSE'')"
    by code_simp
  show "contains (ascii ''Action'') (ascii ''Thought: the Answer needs a sum\<newline>Action: CALCULATE: 1+1\<newline>PAUSE'')"
    by code_simp
  show "extract_action (ascii ''Thought: the Answer needs a sum\<newline>Action: CALCULATE: 1+1\<newline>PAUSE'')
       = Some (ascii ''CALCULATE'', ascii ''1+1'')"
    by code_simp
  show "differs_only_in_case (ascii ''CALCULATE'') (ascii ''calculate'')"
    by (simp add: differs_only_in_case_def to_lower_def ascii_def)
  have call: "Agent_call (replay [ascii ''Thought: the Answer needs a sum\<newline>Action: CALCULATE: 1+1\<newline>PAUSE''])
      (messages (initial_state [] (ascii ''q''))) (next_prompt (initial_state [] (ascii ''q'')))
    = Inr (ascii ''Thought: the Answer needs a sum\<newline>Action: CALCULATE: 1+1\<newline>PAUSE'',
           exchanges [(ascii ''q'', ascii ''Thought: the Answer needs a sum\<newline>Action: CALCULATE: 1+1\<newline>PAUSE'')])"
    by (simp add: Agent_call_def replay_def initial_state_def ascii_def)
  have ans: "contains (ascii ''Answer'') (ascii ''Thought: the Answer needs a sum\<newline>Action: CALCULATE: 1+1\<newline>PAUSE'')"
    by code_simp
  show "iteration (ReActLoop_tools default_config (\<lambda>k. offline_backend) (\<lambda>k. no_name_evaluator))
        (replay [ascii ''Thought: the Answer needs a sum\<newline>Action: CALCULATE: 1+1\<newline>PAUSE''])
        (initial_state [] (ascii ''q''))
     = Inr (Return (ascii ''Thought: the Answer needs a sum\<newline>Action: CALCULATE: 1+1\<newline>PAUSE'')
         (completed (initial_state [] (ascii ''q''))
            (exchanges [(ascii ''q'', ascii ''Thought: the Answer needs a sum\<newline>Action: CALCULATE: 1+1\<newline>PAUSE'')])))"
    unfolding iteration_unfold[OF call] using ans by simp
qed

section \<open>Exhaustion\<close>




section \<open>The transcript\<close>

text \<open>
  C9. As the claim is worded it fails for an empty query: \<open>Agent.__call__\<close> appends a
  user message only for a non-empty prompt, so iterations can pass with no user message.
  For a non-empty query, a run that returns after \<open>N\<close> iterations has appended to the
  agent's transcript exactly \<open>N\<close> user messages and \<open>N\<close> assistant messages in turn and
  no system message, and the transcript the agent started with is still its beginning,
  unchanged; the faults among the iterations make no difference. A fresh agent starts
  with \<open>Agent_init\<close>, which is empty or one system message.
\<close>

theorem transcript_of_run:
  assumes "query \<noteq> []"
      and "run config tools llm agent_messages query = Inr (r, st')"
  shows "\<exists>xs. messages st' = agent_messages @ exchanges xs
            \<and> length xs = iteration_count st'
            \<and> length (filter (\<lambda>m. role m = User) (exchanges xs)) = iteration_count st'
            \<and> length (filter (\<lambda>m. role m = Assistant) (exchanges xs)) = iteration_count st'
            \<and> filter (\<lambda>m. role m = System) (exchanges xs) = []
            \<and> (agent_messages = Agent_init system \<longrightarrow>
                 length (filter (\<lambda>m. role m = System) (messages st')) \<le> 1
                 \<and> (\<forall>i < length (messages st'). role (messages st' ! i) = System \<longrightarrow> i = 0))"
proof -
  have "next_prompt (initial_state agent_messages query) \<noteq> []"
    using assms(1) by (simp add: initial_state_def)
  from run_loop_transcript[OF this] assms(2) obtain xs where
    ms: "messages st' = agent_messages @ exchanges xs" and ic: "iteration_count st' = length xs"
    by (fastforce simp: run_def initial_state_def)
  have fresh: "length (filter (\<lambda>m. role m = System) (messages st')) \<le> 1
                 \<and> (\<forall>i < length (messages st'). role (messages st' ! i) = System \<longrightarrow> i = 0)"
    if a: "agent_messages = Agent_init system"
  proof
    show "length (filter (\<lambda>m. role m = System) (messages st')) \<le> 1"
      using ms a exchanges_roles[of xs] by (simp add: Agent_init_def)
    show "\<forall>i < length (messages st'). role (messages st' ! i) = System \<longrightarrow> i = 0"
    proof (intro allI impI)
      fix i assume i: "i < length (messages st')" and s: "role (messages st' ! i) = System"
      show "i = 0"
      proof (rule ccontr)
        assume "i \<noteq> 0"
        then have "length agent_messages \<le> i" using a by (simp add: Agent_init_def)
        with ms i have "messages st' ! i \<in> set (exchanges xs)"
          by (simp add: nth_append)
        with s exchanges_no_System show False by blast
      qed
    qed
  qed
  from ms ic fresh exchanges_roles[of xs] show ?thesis by auto
qed

theorem transcript_of_run_witness:
  "\<exists>xs. [\<lparr>role = System, content = ascii ''sys''\<rparr>,
          \<lparr>role = User, content = ascii ''q''\<rparr>,
          \<lparr>role = Assistant, content = ascii ''Answer: 4''\<rparr>]
        = Agent_init (ascii ''sys'') @ exchanges xs
      \<and> length xs = 1"
proof -
  have q: "ascii ''q'' \<noteq> []" by (simp add: ascii_def)
  have r: "run (default_config\<lparr>MAX_ITERATIONS := 1\<rparr>) Map.empty (replay [ascii ''Answer: 4''])
             (Agent_init (ascii ''sys'')) (ascii ''q'')
           = Inr (ascii ''Answer: 4'',
                  \<lparr>messages = [\<lparr>role = System, content = ascii ''sys''\<rparr>,
                               \<lparr>role = User, content = ascii ''q''\<rparr>,
                               \<lparr>role = Assistant, content = ascii ''Answer: 4''\<rparr>],
                   next_prompt = ascii ''q'', iteration_count = 1,
                   completions_requested = 1, invoked = []\<rparr>)"
    by (simp add: run_def initial_state_def iteration_def Agent_call_def Agent_init_def
                  replay_def completed_def ascii_def)
  from transcript_of_run[OF q r, of "ascii ''sys''"] show ?thesis by auto
qed

theorem transcript_of_run_counterexample:
  "run (default_config\<lparr>MAX_ITERATIONS := 2\<rparr>) Map.empty (replay [ascii ''hm'', ascii ''hm''])
     (Agent_init []) []
   = Inr (limit_reached,
          \<lparr>messages = [\<lparr>role = Assistant, content = ascii ''hm''\<rparr>,
                       \<lparr>role = Assistant, content = ascii ''hm''\<rparr>],
           next_prompt = [], iteration_count = 2,
           completions_requested = 2, invoked = []\<rparr>)"
  by (simp add: run_def initial_state_def iteration_def Agent_call_def Agent_init_def
                replay_def completed_def ascii_def eval_nat_numeral)

section \<open>Failures inside a capability\<close>




section \<open>Search results\<close>

text \<open>
  C8. When the request, the status check and the parse all succeed, the search
  capability returns, joined by line feeds, the \<open>heading: caption\<close> lines of the first
  five result blocks that have both a heading and a caption, in page order; when no
  block has both it returns the sentinel for no results. In both cases it returns
  (it does not raise) and the text is not empty.
\<close>

theorem search_returns_first_five_lines:
  assumes "http_get be (SEARCH_API config) ((SEARCH_PARAMS config)(ascii ''q'' \<mapsto> query)) = Inr resp"
      and "raise_for_status be resp = Inr ok"
      and "select_results be (body_text resp) = Inr items"
  shows "BingSearch config be query =
           Inr (if List.map_filter result_line items = [] then no_results
                else join [10] (take 5 (List.map_filter result_line items)))
         \<and> length (take 5 (List.map_filter result_line items)) \<le> 5
         \<and> no_results \<noteq> []
         \<and> (\<exists>s. BingSearch config be query = Inr s \<and> s \<noteq> [])"
proof -
  let ?ls = "List.map_filter result_line items"
  have b: "BingSearch config be query = Inr (if ?ls = [] then no_results else join [10] (take 5 ?ls))"
    using search_body_success[OF assms] by (simp add: BingSearch_def)
  have n: "no_results \<noteq> []" by (simp add: no_results_def)
  have j: "join [10] (take 5 ?ls) \<noteq> []" if ne: "?ls \<noteq> []"
  proof -
    from ne have t: "take 5 ?ls \<noteq> []" by simp
    then have "hd (take 5 ?ls) \<in> set ?ls" by (metis hd_in_set in_set_takeD)
    then have "hd (take 5 ?ls) \<noteq> []" by (rule map_filter_result_line_nonempty)
    with t show ?thesis by (rule join_nonempty)
  qed
  from b n j show ?thesis by auto
qed

theorem search_returns_first_five_lines_witness:
  "BingSearch default_config
     (serving_backend
        [\<lparr>h2_text = Some (ascii '' Paris ''), caption_text = Some (ascii ''Capital of France\<newline>'')\<rparr>,
         \<lparr>h2_text = Some (ascii ''France''), caption_text = None\<rparr>])
     (ascii ''capital of France'')
   = Inr (ascii ''Paris: Capital of France'')"
proof -
  have g: "http_get (serving_backend
        [\<lparr>h2_text = Some (ascii '' Paris ''), caption_text = Some (ascii ''Capital of France\<newline>'')\<rparr>,
         \<lparr>h2_text = Some (ascii ''France''), caption_text = None\<rparr>])
        (SEARCH_API default_config)
        ((SEARCH_PARAMS default_config)(ascii ''q'' \<mapsto> ascii ''capital of France''))
      = Inr \<lparr>status_code = 200, body_text = []\<rparr>"
    by (simp add: serving_backend_def)
  have r: "raise_for_status (serving_backend
        [\<lparr>h2_text = Some (ascii '' Paris ''), caption_text = Some (ascii ''Capital of France\<newline>'')\<rparr>,
         \<lparr>h2_text = Some (ascii ''France''), caption_text = None\<rparr>])
        \<lparr>status_code = 200, body_text = []\<rparr> = Inr ()"
    by (simp add: serving_backend_def)
  have s: "select_results (serving_backend
        [\<lparr>h2_text = Some (ascii '' Paris ''), caption_text = Some (ascii ''Capital of France\<newline>'')\<rparr>,
         \<lparr>h2_text = Some (ascii ''France''), caption_text = None\<rparr>])
        (body_text \<lparr>status_code = 200, body_text = []\<rparr>)
      = Inr [\<lparr>h2_text = Some (ascii '' Paris ''), caption_text = Some (ascii ''Capital of France\<newline>'')\<rparr>,
         \<lparr>h2_text = Some (ascii ''France''), caption_text = None\<rparr>]"
    by (simp add: serving_backend_def)
  from search_returns_first_five_lines[OF g r s] show ?thesis
    by (simp add: List.map_filter_simps result_line_def format_result_def strip_def
                  py_isspace_def ascii_def)
qed

end
